theory Spec2Isabelle
  imports Complex_Main "HOL-Library.Multiset"
begin

section \<open>Strings and numbers of the JavaScript sources\<close>

text \<open>
  JavaScript numbers are modelled as real numbers: arithmetic is exact, and the rounding
  error of IEEE doubles as well as NaN and the infinities are outside the model.
  Strings are character lists.  The four characters that matter to the filter syntax
  get names, since two of them cannot be typed inside a string literal.
\<close>

type_synonym number = real

definition squote :: char where
  "squote = CHR 0x27"

definition backslash :: char where
  "backslash = CHR 0x5C"

definition colon :: char where
  "colon = CHR '':''"

definition comma :: char where
  "comma = CHR '',''"

text \<open>
  \<^verbatim>\<open>Math.round(v)\<close> is the integer nearest to \<open>v\<close>, a tie going up: \<open>floor(v + 0.5)\<close>.
\<close>

definition Math_round :: "number \<Rightarrow> int" where
  "Math_round v = \<lfloor>v + 1 / 2\<rfloor>"

text \<open>
  \<^verbatim>\<open>s.replace(/c/g, r)\<close> for a single literal character \<open>c\<close>: every occurrence of \<open>c\<close>
  is replaced by \<open>r\<close>, everything else is copied.
\<close>

definition replace_char :: "char \<Rightarrow> string \<Rightarrow> string \<Rightarrow> string" where
  "replace_char c r s = concat (map (\<lambda>d. if d = c then r else [d]) s)"

text \<open>\<^verbatim>\<open>Array.prototype.join\<close>.\<close>

fun join :: "string \<Rightarrow> string list \<Rightarrow> string" where
  "join sep [] = []"
| "join sep [x] = x"
| "join sep (x # y # ys) = x @ sep @ join sep (y # ys)"

text \<open>
  \<^verbatim>\<open>s.split(',')\<close>: the pieces of \<open>s\<close> between the occurrences of the separator; a string
  without the separator is one piece.
\<close>

fun split_at :: "char \<Rightarrow> string \<Rightarrow> string list" where
  "split_at c [] = [[]]"
| "split_at c (d # ds) =
     (if d = c then [] # split_at c ds
      else (case split_at c ds of p # ps \<Rightarrow> (d # p) # ps | [] \<Rightarrow> [[d]]))"

text \<open>
  A template literal \<^verbatim>\<open>${v}\<close> converts the number \<open>v\<close> to a string with the runtime's
  \<^verbatim>\<open>Number.prototype.toString\<close>.  The filter compiler below takes that conversion as
  its first argument, so that what is proved of it holds for every conversion.  The
  function \<open>Number_toString\<close> is the conversion used to evaluate examples: it prints
  an integer in decimal digits and a decimal fraction digit by digit (at most 17 digits
  after the point), as the runtime does for integers below \<open>10^21\<close> and for short
  decimal fractions.
\<close>

definition digit_char :: "nat \<Rightarrow> char" where
  "digit_char d = char_of (48 + d)"

fun show_nat :: "nat \<Rightarrow> string" where
  "show_nat n = (if n < 10 then [digit_char n] else show_nat (n div 10) @ [digit_char (n mod 10)])"

declare show_nat.simps [simp del]

fun frac_digits :: "nat \<Rightarrow> real \<Rightarrow> string" where
  "frac_digits 0 f = []"
| "frac_digits (Suc k) f =
     (if f = 0 then []
      else digit_char (nat \<lfloor>10 * f\<rfloor>) # frac_digits k (10 * f - of_int \<lfloor>10 * f\<rfloor>))"

definition Number_toString :: "number \<Rightarrow> string" where
  "Number_toString v =
     (let a = \<bar>v\<bar>; i = \<lfloor>a\<rfloor>; f = a - of_int i
      in (if v < 0 then ''-'' else '''') @ show_nat (nat i) @
         (if f = 0 then '''' else ''.'' @ frac_digits 17 f))"

section \<open>The overlay record\<close>

text \<open>
  The interface \<^verbatim>\<open>TextOverlay\<close> of the editor.  The fields carry the prefix \<open>ov_\<close>.
\<close>

datatype text_align = AlignLeft | AlignCenter | AlignRight

datatype animation = AnimNone | AnimFadeIn | AnimSlideUp | AnimTypewriter

record overlay =
  ov_id :: string
  ov_text :: string
  ov_x :: number
  ov_y :: number
  ov_width :: number
  ov_height :: number
  ov_fontSize :: number
  ov_fontWeight :: string
  ov_color :: string
  ov_outlineColor :: string
  ov_outlineWidth :: number
  ov_opacity :: number
  ov_startTime :: number
  ov_endTime :: number
  ov_fontFamily :: string
  ov_textAlign :: text_align
  ov_animation :: animation

section \<open>The filter compiler (server/index.js, createTextFilter)\<close>

text \<open>
  The escaping step: \<^verbatim>\<open>overlay.text.replace(/'/g, "\\'").replace(/:/g, "\\:")\<close>.
\<close>

definition escapedText :: "string \<Rightarrow> string" where
  "escapedText t =
     replace_char colon [backslash, colon] (replace_char squote [backslash, squote] t)"

text \<open>
  \<open>createTextFilter\<close> builds the draw-text primitive of one overlay by concatenation.
  The two conditional extensions of the source (\<^verbatim>\<open>filter += ...\<close>) are the bindings
  \<open>filter1\<close> and \<open>filter2\<close>; a JavaScript string is truthy when it is not empty.
\<close>

definition createTextFilter :: "(number \<Rightarrow> string) \<Rightarrow> overlay \<Rightarrow> number \<Rightarrow> number \<Rightarrow> string" where
  "createTextFilter str overlay videoWidth videoHeight =
     (let x = Math_round ((ov_x overlay / 100) * videoWidth);
          y = Math_round ((ov_y overlay / 100) * videoHeight);
          fontSize = Math_round (ov_fontSize overlay * (videoWidth / 400));
          filter0 = ''drawtext=text='' @ [squote] @ escapedText (ov_text overlay) @ [squote]
                    @ '':x='' @ str (of_int x) @ '':y='' @ str (of_int y)
                    @ '':fontsize='' @ str (of_int fontSize)
                    @ '':fontcolor='' @ ov_color overlay;
          filter1 = (if ov_outlineWidth overlay > 0
                     then filter0 @ '':borderw='' @ str (ov_outlineWidth overlay)
                          @ '':bordercolor='' @ ov_outlineColor overlay
                     else filter0);
          filter2 = (if ov_fontFamily overlay \<noteq> [] \<and> ov_fontFamily overlay \<noteq> ''Inter''
                     then filter1 @ '':fontfile=/System/Library/Fonts/'' @ ov_fontFamily overlay
                          @ ''.ttf''
                     else filter1)
      in filter2 @ '':enable='' @ [squote] @ ''between(t,'' @ str (ov_startTime overlay)
         @ '','' @ str (ov_endTime overlay) @ '')'' @ [squote])"

text \<open>
  The filter graph of a job: one primitive per overlay, in list order, joined by commas
  (\<^verbatim>\<open>overlays.map(overlay => createTextFilter(...)).join(',')\<close>).
\<close>

definition filterComplex :: "(number \<Rightarrow> string) \<Rightarrow> overlay list \<Rightarrow> number \<Rightarrow> number \<Rightarrow> string" where
  "filterComplex str overlays videoWidth videoHeight =
     join '','' (map (\<lambda>overlay. createTextFilter str overlay videoWidth videoHeight) overlays)"

text \<open>
  The overlay that the editor creates for a video without one (VideoList.tsx), with the
  text and the window of the specification's first scenario.
\<close>

definition helloOverlay :: overlay where
  "helloOverlay =
     \<lparr>ov_id = ''1'', ov_text = ''Hello'', ov_x = 15, ov_y = 50, ov_width = 70, ov_height = 20,
      ov_fontSize = 24, ov_fontWeight = ''600'', ov_color = ''#ffffff'',
      ov_outlineColor = ''#000000'', ov_outlineWidth = 2, ov_opacity = 1,
      ov_startTime = 0, ov_endTime = 5, ov_fontFamily = ''Inter'',
      ov_textAlign = AlignCenter, ov_animation = AnimNone\<rparr>"

text \<open>An overlay whose text contains a comma.\<close>

definition commaOverlay :: overlay where
  "commaOverlay = helloOverlay\<lparr>ov_text := ''Hello, world''\<rparr>"

text \<open>An overlay whose text is a backslash followed by a quote.\<close>

definition backslashQuoteOverlay :: overlay where
  "backslashQuoteOverlay = helloOverlay\<lparr>ov_text := [backslash, squote]\<rparr>"


definition lateOverlay :: overlay where
  "lateOverlay = helloOverlay\<lparr>ov_startTime := 18, ov_endTime := 25\<rparr>"


subsection \<open>Reading a quoted value back\<close>

text \<open>
  The compiler writes the text between single quotes and puts a backslash in front of a
  character that is to be taken literally.  \<open>read_quoted\<close> reads such a value from the
  character after the opening quote: a backslash makes the next character part of the
  value, the first quote without a backslash in front closes the value.  The result is
  the value and the rest of the input after the closing quote, or \<open>None\<close> when the
  input ends before the value is closed.
\<close>

fun read_quoted :: "string \<Rightarrow> (string \<times> string) option" where
  "read_quoted [] = None"
| "read_quoted [c] = (if c = squote then Some ([], []) else None)"
| "read_quoted (c # d # ds) =
     (if c = squote then Some ([], d # ds)
      else if c = backslash then map_option (\<lambda>(v, r). (d # v, r)) (read_quoted ds)
      else map_option (\<lambda>(v, r). (c # v, r)) (read_quoted (d # ds)))"

definition count_char :: "char \<Rightarrow> string \<Rightarrow> nat" where
  "count_char c s = length (filter (\<lambda>d. d = c) s)"

section \<open>The editor (App.tsx)\<close>

text \<open>
  The interface \<^verbatim>\<open>VideoFile\<close> (fields with the prefix \<open>vf_\<close>; the browser's file
  object is represented by its name) and the two state cells of the component that the
  duration limit touches.
\<close>

record video_file =
  vf_id :: string
  vf_file :: string
  vf_url :: string
  vf_duration :: number
  vf_width :: number
  vf_height :: number
  vf_name :: string
  vf_textOverlays :: "overlay list"

record app_state =
  app_maxDuration :: number
  app_videos :: "video_file list"

text \<open>
  \<open>handleMaxDurationChange\<close> stores the new limit and, when the limit is below 300
  seconds, rewrites the window of every overlay of every video.
\<close>

definition handleMaxDurationChange :: "number \<Rightarrow> app_state \<Rightarrow> app_state" where
  "handleMaxDurationChange duration st =
     st\<lparr>app_maxDuration := duration,
        app_videos :=
          (if duration < 300
           then map (\<lambda>video. video\<lparr>vf_textOverlays :=
                       map (\<lambda>overlay. overlay\<lparr>ov_startTime := min (ov_startTime overlay) (duration - 1 / 2),
                                                 ov_endTime := min (ov_endTime overlay) duration\<rparr>)
                           (vf_textOverlays video)\<rparr>)
                    (app_videos st)
           else app_videos st)\<rparr>"

definition getEffectiveDuration :: "number \<Rightarrow> video_file \<Rightarrow> number" where
  "getEffectiveDuration maxDuration video =
     (if maxDuration < 300 then min (vf_duration video) maxDuration else vf_duration video)"

text \<open>
  The metadata of one video in a batch submission (\<^verbatim>\<open>videosData\<close>, prefix \<open>vd_\<close>), and
  the list that \<open>handleMultiExport\<close> builds from the editor state: the limit is passed
  only when it is below 300.
\<close>

record video_data =
  vd_name :: string
  vd_textOverlays :: "overlay list option"
  vd_maxDuration :: "number option"


text \<open>A video of 60 seconds with the late overlay, and a video of 10 seconds.\<close>

definition minuteVideo :: video_file where
  "minuteVideo =
     \<lparr>vf_id = ''v1'', vf_file = ''clip.mp4'', vf_url = ''blob:clip'', vf_duration = 60,
      vf_width = 1920, vf_height = 1080, vf_name = ''clip'', vf_textOverlays = [lateOverlay]\<rparr>"


section \<open>The server's files and collaborators (server/index.js)\<close>

text \<open>
  The server keeps its artifacts in two directories, \<^verbatim>\<open>uploads\<close> (the input area) and
  \<^verbatim>\<open>output\<close>.  A directory is a list of entries, a file name with its last-modified
  time in milliseconds; the entries of a directory have distinct names.  The operations
  of \<^verbatim>\<open>fs-extra\<close> are modelled on a file system that does not fail: \<^verbatim>\<open>readdir\<close> lists the
  names, \<^verbatim>\<open>stat\<close> finds the time of a name (and rejects, \<open>None\<close>, when the name is
  absent), \<^verbatim>\<open>remove\<close> deletes a name and does nothing when it is absent.
\<close>

datatype area = Uploads | Output

type_synonym path = "area \<times> string"

type_synonym dir = "(string \<times> int) list"

definition readdir :: "dir \<Rightarrow> string list" where
  "readdir d = map fst d"

definition stat :: "dir \<Rightarrow> string \<Rightarrow> int option" where
  "stat d name = map_of d name"

definition dir_remove :: "dir \<Rightarrow> string \<Rightarrow> dir" where
  "dir_remove d name = filter (\<lambda>e. fst e \<noteq> name) d"

definition dir_write :: "dir \<Rightarrow> string \<Rightarrow> int \<Rightarrow> dir" where
  "dir_write d name t = (name, t) # dir_remove d name"

text \<open>
  The state of the server: the two directories, the paths handed to \<^verbatim>\<open>fs.remove\<close> so
  far, in order (a record of the calls, so that one can count them), and the number of
  tokens drawn from \<^verbatim>\<open>uuidv4\<close>.
\<close>

record server =
  sv_files :: "area \<Rightarrow> dir"
  sv_removed :: "path list"
  sv_uuids :: nat

definition pathExists :: "server \<Rightarrow> path \<Rightarrow> bool" where
  "pathExists s p = (stat (sv_files s (fst p)) (snd p) \<noteq> None)"

definition fs_remove :: "path \<Rightarrow> server \<Rightarrow> server" where
  "fs_remove p s =
     s\<lparr>sv_files := (sv_files s)(fst p := dir_remove (sv_files s (fst p)) (snd p)),
       sv_removed := sv_removed s @ [p]\<rparr>"

definition fs_write :: "path \<Rightarrow> int \<Rightarrow> server \<Rightarrow> server" where
  "fs_write p t s =
     s\<lparr>sv_files := (sv_files s)(fst p := dir_write (sv_files s (fst p)) (snd p) t)\<rparr>"

text \<open>
  A file stored by the upload middleware: its original name and the unique name under
  which it lies in the input area.
\<close>

record multer_file =
  mf_originalname :: string
  mf_filename :: string

definition mf_path :: "multer_file \<Rightarrow> path" where
  "mf_path file = (Uploads, mf_filename file)"

text \<open>
  The encoder command that the handlers build (\<^verbatim>\<open>fluent-ffmpeg\<close>), and a stream of the
  probe's metadata.
\<close>

record command =
  cmd_input :: path
  cmd_outputOptions :: "string list"
  cmd_duration :: "number option"
  cmd_complexFilter :: "string option"
  cmd_output :: "path option"

record stream =
  st_codec_type :: string
  st_width :: number
  st_height :: number

text \<open>
  The outcome of an encoder run: the \<^verbatim>\<open>end\<close> event, or the \<^verbatim>\<open>error\<close> event with its
  message; the flag tells whether the encoder has left a partially written file at the
  output path.
\<close>

datatype encode_result = EncodeEnd | EncodeError string bool

text \<open>
  The collaborators of a handler: the probe (an error message or the streams), the
  encoder, the token generator (the \<open>n\<close>-th token drawn), the runtime's conversion of
  numbers to strings, and the time stamp that a file written now receives.
\<close>

record env =
  ffprobe :: "path \<Rightarrow> string + stream list"
  encoder :: "command \<Rightarrow> encode_result"
  uuidv4 :: "nat \<Rightarrow> string"
  toStr :: "number \<Rightarrow> string"
  clock :: int

definition ffmpeg :: "path \<Rightarrow> command" where
  "ffmpeg inputPath =
     \<lparr>cmd_input = inputPath, cmd_outputOptions = [], cmd_duration = None,
      cmd_complexFilter = None, cmd_output = None\<rparr>"

definition outputOptions :: "string list" where
  "outputOptions =
     [''-c:v libx264'', ''-preset medium'', ''-crf 23'', ''-c:a aac'', ''-b:a 128k'',
      ''-movflags +faststart'']"

text \<open>
  Running a command: on \<^verbatim>\<open>end\<close> the output file exists; on \<^verbatim>\<open>error\<close> the promise is
  rejected with the message, and the output file exists when the encoder left one.
\<close>

definition run :: "env \<Rightarrow> command \<Rightarrow> server \<Rightarrow> (string + unit) \<times> server" where
  "run e c s =
     (case cmd_output c of
        None \<Rightarrow> (Inl ''No output specified'', s)
      | Some outputPath \<Rightarrow>
          (case encoder e c of
             EncodeEnd \<Rightarrow> (Inr (), fs_write outputPath (clock e) s)
           | EncodeError msg partial \<Rightarrow>
               (Inl msg, if partial then fs_write outputPath (clock e) s else s)))"

section \<open>The single-video handler\<close>

text \<open>
  The request: the stored upload, if any, and the fields of the body.  The overlay list
  is the decoded \<^verbatim>\<open>textOverlays\<close> (absent: the empty list).  \<open>req_maxDuration\<close> is the
  number that \<^verbatim>\<open>parseFloat\<close> reads from the field, \<open>None\<close> when the field is absent,
  empty or not a number.
\<close>

record request =
  req_file :: "multer_file option"
  req_textOverlays :: "overlay list option"
  req_videoName :: "string option"
  req_maxDuration :: "number option"

datatype response =
    Success string string
  | Status400 string
  | Status500 string string

text \<open>
  The block that creates the encoder command, the same in both handlers: the fixed
  output options, the duration limit when one is given and positive (a number is truthy
  when it is not zero), the filter graph when there are overlays, and the output path.
\<close>

definition buildCommand ::
    "(number \<Rightarrow> string) \<Rightarrow> path \<Rightarrow> number option \<Rightarrow> overlay list \<Rightarrow> stream \<Rightarrow> path \<Rightarrow> command" where
  "buildCommand str inputPath durationLimit overlays videoStream outputPath =
     (let videoWidth = st_width videoStream;
          videoHeight = st_height videoStream;
          command0 = (ffmpeg inputPath)\<lparr>cmd_outputOptions := outputOptions\<rparr>;
          command1 = (case durationLimit of
                        None \<Rightarrow> command0
                      | Some d \<Rightarrow> if d \<noteq> 0 \<and> d > 0 then command0\<lparr>cmd_duration := Some d\<rparr>
                                  else command0);
          command2 = (if length overlays > 0
                      then command1\<lparr>cmd_complexFilter :=
                             Some (filterComplex str overlays videoWidth videoHeight)\<rparr>
                      else command1)
      in command2\<lparr>cmd_output := Some outputPath\<rparr>)"

text \<open>
  The name of the output artifact,
  \<^verbatim>\<open>processed-${videoName || 'video'}-${uuidv4()}.mp4\<close>, for a request served in state
  \<open>s\<close>: an absent or empty name counts as \<^verbatim>\<open>video\<close>.
\<close>

definition outputName :: "env \<Rightarrow> request \<Rightarrow> server \<Rightarrow> string" where
  "outputName e req s =
     ''processed-''
     @ (case req_videoName req of None \<Rightarrow> ''video'' | Some n \<Rightarrow> if n = [] then ''video'' else n)
     @ ''-'' @ uuidv4 e (sv_uuids s) @ ''.mp4''"

text \<open>
  The body of the \<^verbatim>\<open>try\<close> block: \<open>Inl\<close> is the message of the exception that leaves it.
  A probe result without a video stream makes \<^verbatim>\<open>videoStream.width\<close> throw.
\<close>

definition processVideo_try ::
    "env \<Rightarrow> request \<Rightarrow> multer_file \<Rightarrow> server \<Rightarrow> (string + response) \<times> server" where
  "processVideo_try e req file s =
     (let overlays = (case req_textOverlays req of None \<Rightarrow> [] | Some os \<Rightarrow> os);
          durationLimit = req_maxDuration req;
          inputPath = mf_path file;
          outputFilename = outputName e req s;
          s1 = s\<lparr>sv_uuids := Suc (sv_uuids s)\<rparr>;
          outputPath = (Output, outputFilename)
      in case ffprobe e inputPath of
           Inl err \<Rightarrow> (Inl err, s1)
         | Inr streams \<Rightarrow>
             (case find (\<lambda>stream. st_codec_type stream = ''video'') streams of
                None \<Rightarrow> (Inl ''Cannot read properties of undefined'', s1)
              | Some videoStream \<Rightarrow>
                  (case run e (buildCommand (toStr e) inputPath durationLimit overlays
                                 videoStream outputPath) s1 of
                     (Inl err, s2) \<Rightarrow> (Inl err, s2)
                   | (Inr u, s2) \<Rightarrow>
                       (Inr (Success outputFilename (''/api/download/'' @ outputFilename)),
                        fs_remove inputPath s2))))"

text \<open>
  The handler: without a file it answers 400; otherwise it runs the block, and the
  \<^verbatim>\<open>catch\<close> clause removes the upload and answers 500.
\<close>

definition processVideo :: "env \<Rightarrow> request \<Rightarrow> server \<Rightarrow> response \<times> server" where
  "processVideo e req s =
     (case req_file req of
        None \<Rightarrow> (Status400 ''No video file provided'', s)
      | Some file \<Rightarrow>
          (case processVideo_try e req file s of
             (Inr resp, s') \<Rightarrow> (resp, s')
           | (Inl err, s') \<Rightarrow>
               (Status500 ''Video processing failed'' err, fs_remove (mf_path file) s')))"

text \<open>
  The outcome of the encoder run of a request, \<open>None\<close> when the handler does not get as
  far as the encoder (the probe fails or finds no video stream).
\<close>

definition encoderOutcome :: "env \<Rightarrow> request \<Rightarrow> multer_file \<Rightarrow> server \<Rightarrow> encode_result option" where
  "encoderOutcome e req file s =
     (case ffprobe e (mf_path file) of
        Inl err \<Rightarrow> None
      | Inr streams \<Rightarrow>
          (case find (\<lambda>stream. st_codec_type stream = ''video'') streams of
             None \<Rightarrow> None
           | Some videoStream \<Rightarrow>
               Some (encoder e (buildCommand (toStr e) (mf_path file) (req_maxDuration req)
                       (case req_textOverlays req of None \<Rightarrow> [] | Some os \<Rightarrow> os)
                       videoStream (Output, outputName e req s)))))"

section \<open>The batch handler\<close>

text \<open>
  The request: the stored uploads (\<^verbatim>\<open>req.files\<close>, an absent list counting as empty) and
  the decoded \<^verbatim>\<open>videosData\<close> (absent: the empty list).  The fields of both handlers are
  modelled after decoding; a body that is not JSON is outside the model.
\<close>

record batch_request =
  breq_files :: "multer_file list"
  breq_videosData :: "video_data list option"

record result_entry =
  re_originalName :: string
  re_filename :: string
  re_downloadUrl :: string
  re_success :: bool

record error_entry =
  ee_originalName :: string
  ee_error :: string

datatype batch_response =
    BatchJson nat nat "result_entry list" "error_entry list"
  | BatchStatus400 string
  | BatchStatus500 string string

text \<open>
  The inner \<^verbatim>\<open>try\<close> block for one file and its metadata: \<open>Inl\<close> is the message of the
  exception, \<open>Inr\<close> the entry pushed to \<^verbatim>\<open>results\<close>.
\<close>

definition processItem ::
    "env \<Rightarrow> multer_file \<Rightarrow> video_data \<Rightarrow> server \<Rightarrow> (string + result_entry) \<times> server" where
  "processItem e file videoData s =
     (let inputPath = mf_path file;
          outputFilename = ''processed-'' @ vd_name videoData @ ''-'' @ uuidv4 e (sv_uuids s)
                           @ ''.mp4'';
          s1 = s\<lparr>sv_uuids := Suc (sv_uuids s)\<rparr>;
          outputPath = (Output, outputFilename)
      in case ffprobe e inputPath of
           Inl err \<Rightarrow> (Inl err, s1)
         | Inr streams \<Rightarrow>
             (case find (\<lambda>stream. st_codec_type stream = ''video'') streams of
                None \<Rightarrow> (Inl ''Cannot read properties of undefined'', s1)
              | Some videoStream \<Rightarrow>
                  (case run e (buildCommand (toStr e) inputPath (vd_maxDuration videoData)
                                 (case vd_textOverlays videoData of None \<Rightarrow> [] | Some os \<Rightarrow> os)
                                 videoStream outputPath) s1 of
                     (Inl err, s2) \<Rightarrow> (Inl err, s2)
                   | (Inr u, s2) \<Rightarrow>
                       (Inr \<lparr>re_originalName = vd_name videoData, re_filename = outputFilename,
                             re_downloadUrl = ''/api/download/'' @ outputFilename,
                             re_success = True\<rparr>,
                        fs_remove inputPath s2))))"

text \<open>
  The loop over \<^verbatim>\<open>req.files\<close>.  The metadata list is walked in step with the files, so
  its head is \<^verbatim>\<open>videos[i]\<close>; when it is exhausted \<^verbatim>\<open>videos[i]\<close> is undefined, reading
  its name throws inside the \<^verbatim>\<open>try\<close> block and again inside the \<^verbatim>\<open>catch\<close> clause, and
  that second exception leaves the loop (\<open>Inl\<close>).  Otherwise the \<^verbatim>\<open>catch\<close> clause pushes
  an entry to \<^verbatim>\<open>errors\<close>, removes the upload, and the loop goes on.
\<close>

fun batchLoop ::
    "env \<Rightarrow> multer_file list \<Rightarrow> video_data list \<Rightarrow> result_entry list \<Rightarrow> error_entry list
       \<Rightarrow> server \<Rightarrow> (string + result_entry list \<times> error_entry list) \<times> server" where
  "batchLoop e [] videos results errors s = (Inr (results, errors), s)"
| "batchLoop e (file # files) [] results errors s =
     (Inl ''Cannot read properties of undefined'', s)"
| "batchLoop e (file # files) (videoData # videos) results errors s =
     (case processItem e file videoData s of
        (Inr entry, s') \<Rightarrow> batchLoop e files videos (results @ [entry]) errors s'
      | (Inl err, s') \<Rightarrow>
          batchLoop e files videos results
            (errors @ [\<lparr>ee_originalName = vd_name videoData, ee_error = err\<rparr>])
            (fs_remove (mf_path file) s'))"

text \<open>
  The handler: an empty upload list is answered with 400; an exception that leaves the
  loop reaches the outer \<^verbatim>\<open>catch\<close> clause, which removes every upload and answers 500.
\<close>

definition processBatch :: "env \<Rightarrow> batch_request \<Rightarrow> server \<Rightarrow> batch_response \<times> server" where
  "processBatch e req s =
     (if breq_files req = [] then (BatchStatus400 ''No video files provided'', s)
      else
        (let videos = (case breq_videosData req of None \<Rightarrow> [] | Some vs \<Rightarrow> vs)
         in case batchLoop e (breq_files req) videos [] [] s of
              (Inr (results, errors), s') \<Rightarrow>
                (BatchJson (length results) (length (breq_files req)) results errors, s')
            | (Inl err, s') \<Rightarrow>
                (BatchStatus500 ''Batch processing failed'' err,
                 fold (\<lambda>file. fs_remove (mf_path file)) (breq_files req) s')))"

text \<open>Whether a response rejects the call as a whole.\<close>

fun rejected :: "batch_response \<Rightarrow> bool" where
  "rejected (BatchJson p t rs es) = False"
| "rejected (BatchStatus400 m) = True"
| "rejected (BatchStatus500 m d) = True"

text \<open>
  The outcome of each item of a batch, in order: the run of the inner block on the item
  in the state that the items before it have left.
\<close>

fun itemOutcomes ::
    "env \<Rightarrow> multer_file list \<Rightarrow> video_data list \<Rightarrow> server \<Rightarrow> (string + result_entry) list" where
  "itemOutcomes e [] videos s = []"
| "itemOutcomes e (file # files) [] s = []"
| "itemOutcomes e (file # files) (videoData # videos) s =
     (case processItem e file videoData s of
        (Inr entry, s') \<Rightarrow> Inr entry # itemOutcomes e files videos s'
      | (Inl err, s') \<Rightarrow> Inl err # itemOutcomes e files videos (fs_remove (mf_path file) s'))"

text \<open>The entries that the outcomes contribute to the two lists of the response.\<close>

fun resultEntries :: "(string + result_entry) list \<Rightarrow> result_entry list" where
  "resultEntries [] = []"
| "resultEntries (Inr entry # os) = entry # resultEntries os"
| "resultEntries (Inl err # os) = resultEntries os"

fun errorEntries :: "video_data list \<Rightarrow> (string + result_entry) list \<Rightarrow> error_entry list" where
  "errorEntries (videoData # videos) (Inl err # os) =
     \<lparr>ee_originalName = vd_name videoData, ee_error = err\<rparr> # errorEntries videos os"
| "errorEntries (videoData # videos) (Inr entry # os) = errorEntries videos os"
| "errorEntries videos os = []"

section \<open>The lifecycle sweep\<close>

definition maxAge :: int where
  "maxAge = 24 * 60 * 60 * 1000"

text \<open>
  One loop of \<open>cleanupOldFiles\<close> over the listing of a directory.  The flag is
  \<open>False\<close> when \<^verbatim>\<open>fs.stat\<close> rejects: the exception leaves the function through its
  \<^verbatim>\<open>catch\<close> clause, which only logs, and the files deleted so far stay deleted.
\<close>

fun cleanupLoop :: "int \<Rightarrow> area \<Rightarrow> string list \<Rightarrow> server \<Rightarrow> bool \<times> server" where
  "cleanupLoop now a [] s = (True, s)"
| "cleanupLoop now a (file # files) s =
     (case stat (sv_files s a) file of
        None \<Rightarrow> (False, s)
      | Some mtime \<Rightarrow>
          cleanupLoop now a files (if now - mtime > maxAge then fs_remove (a, file) s else s))"

text \<open>A pass at time \<open>now\<close>: the output directory first, then the uploads.\<close>

definition cleanupOldFiles :: "int \<Rightarrow> server \<Rightarrow> server" where
  "cleanupOldFiles now s =
     (case cleanupLoop now Output (readdir (sv_files s Output)) s of
        (False, s1) \<Rightarrow> s1
      | (True, s1) \<Rightarrow> snd (cleanupLoop now Uploads (readdir (sv_files s1 Uploads)) s1))"

text \<open>A directory is well formed when its names are distinct.\<close>

definition wf_server :: "server \<Rightarrow> bool" where
  "wf_server s = (distinct (readdir (sv_files s Uploads)) \<and> distinct (readdir (sv_files s Output)))"

section \<open>Example inputs\<close>

text \<open>
  A probe that finds one video stream of 1920 by 1080, an encoder that succeeds, tokens
  \<^verbatim>\<open>t0\<close>, \<^verbatim>\<open>t1\<close>, ..., and a clock at hour 100 (in milliseconds).
\<close>

definition hour :: int where
  "hour = 60 * 60 * 1000"

definition hdStream :: stream where
  "hdStream = \<lparr>st_codec_type = ''video'', st_width = 1920, st_height = 1080\<rparr>"

definition goodEnv :: env where
  "goodEnv =
     \<lparr>ffprobe = (\<lambda>p. Inr [hdStream]), encoder = (\<lambda>c. EncodeEnd),
      uuidv4 = (\<lambda>n. ''t'' @ show_nat n), toStr = Number_toString, clock = 100 * hour\<rparr>"

text \<open>An encoder that fails and leaves a partially written output file.\<close>

definition brokenEncoderEnv :: env where
  "brokenEncoderEnv = goodEnv\<lparr>encoder := (\<lambda>c. EncodeError ''ffmpeg exited with code 1'' True)\<rparr>"

text \<open>A probe that fails on the upload \<^verbatim>\<open>u2-b.mp4\<close> only.\<close>

definition secondProbeFailsEnv :: env where
  "secondProbeFailsEnv =
     goodEnv\<lparr>ffprobe := (\<lambda>p. if p = (Uploads, ''u2-b.mp4'') then Inl ''Invalid data found''
                              else Inr [hdStream])\<rparr>"

definition clipUpload :: multer_file where
  "clipUpload = \<lparr>mf_originalname = ''clip.mp4'', mf_filename = ''u1-clip.mp4''\<rparr>"

definition oneUploadServer :: server where
  "oneUploadServer =
     \<lparr>sv_files = (\<lambda>a. case a of Uploads \<Rightarrow> [(''u1-clip.mp4'', 100 * hour)] | Output \<Rightarrow> []),
      sv_removed = [], sv_uuids = 0\<rparr>"

definition clipRequest :: request where
  "clipRequest =
     \<lparr>req_file = Some clipUpload, req_textOverlays = Some [helloOverlay],
      req_videoName = Some ''clip'', req_maxDuration = None\<rparr>"

text \<open>A batch of three uploads with their metadata.\<close>

definition threeUploads :: "multer_file list" where
  "threeUploads =
     [\<lparr>mf_originalname = ''a.mp4'', mf_filename = ''u1-a.mp4''\<rparr>,
      \<lparr>mf_originalname = ''b.mp4'', mf_filename = ''u2-b.mp4''\<rparr>,
      \<lparr>mf_originalname = ''c.mp4'', mf_filename = ''u3-c.mp4''\<rparr>]"

definition threeVideos :: "video_data list" where
  "threeVideos =
     [\<lparr>vd_name = ''a'', vd_textOverlays = Some [helloOverlay], vd_maxDuration = None\<rparr>,
      \<lparr>vd_name = ''b'', vd_textOverlays = Some [], vd_maxDuration = Some 20\<rparr>,
      \<lparr>vd_name = ''c'', vd_textOverlays = None, vd_maxDuration = None\<rparr>]"

definition threeUploadsServer :: server where
  "threeUploadsServer =
     \<lparr>sv_files = (\<lambda>a. case a of
                        Uploads \<Rightarrow> [(''u1-a.mp4'', 100 * hour), (''u2-b.mp4'', 100 * hour),
                                    (''u3-c.mp4'', 100 * hour)]
                      | Output \<Rightarrow> []),
      sv_removed = [], sv_uuids = 0\<rparr>"

text \<open>
  A server at hour 100 with an output and an upload that are 25 hours old and an output
  and an upload that are one hour old.
\<close>

definition agedServer :: server where
  "agedServer =
     \<lparr>sv_files = (\<lambda>a. case a of
                        Uploads \<Rightarrow> [(''u-old.mp4'', 75 * hour), (''u-new.mp4'', 99 * hour)]
                      | Output \<Rightarrow> [(''processed-old.mp4'', 75 * hour),
                                   (''processed-new.mp4'', 99 * hour)]),
      sv_removed = [], sv_uuids = 0\<rparr>"

section \<open>Properties of the filter compiler\<close>


lemma escapedText_charwise:
  "escapedText t =
     concat (map (\<lambda>c. if c = squote then [backslash, squote]
                       else if c = colon then [backslash, colon] else [c]) t)"
  by (induction t)
     (simp_all add: escapedText_def replace_char_def squote_def backslash_def colon_def)

lemma escapedText_Nil [simp]: "escapedText [] = []"
  by (simp add: escapedText_charwise)

lemma escapedText_Cons:
  "escapedText (c # t) =
     (if c = squote then backslash # squote # escapedText t
      else if c = colon then backslash # colon # escapedText t
      else c # escapedText t)"
  by (simp add: escapedText_charwise)

lemma count_char_append [simp]: "count_char c (s @ t) = count_char c s + count_char c t"
  by (simp add: count_char_def)

lemma split_at_not_Nil: "split_at c s \<noteq> []"
  by (induction s) (auto split: list.splits)

lemma length_split_at: "length (split_at c s) = Suc (count_char c s)"
  by (induction s) (auto split: list.splits simp: split_at_not_Nil count_char_def)

lemma count_comma_escapedText: "count_char comma (escapedText t) = count_char comma t"
  by (induction t)
     (simp_all add: escapedText_Cons count_char_def comma_def squote_def backslash_def colon_def)

lemma count_char_join:
  "count_char c (join sep xs)
     = sum_list (map (count_char c) xs) + (length xs - 1) * count_char c sep"
  by (induction sep xs rule: join.induct) (simp_all add: count_char_def)

lemma count_comma_literals:
  "count_char comma ''between(t,'' = 1" "count_char comma '','' = 1"
  by (simp_all add: count_char_def comma_def)

lemma count_comma_createTextFilter:
  "2 + count_char comma (ov_text ov) \<le> count_char comma (createTextFilter str ov w h)"
  unfolding createTextFilter_def Let_def
  by (simp only: count_char_append count_comma_escapedText count_comma_literals split: if_split)
     simp

lemma count_comma_filterComplex:
  "3 * length ovs + sum_list (map (\<lambda>ov. count_char comma (ov_text ov)) ovs)
     \<le> Suc (count_char comma (filterComplex str ovs w h))"
proof -
  have "sum_list (map (\<lambda>ov. 2 + count_char comma (ov_text ov)) ovs)
          \<le> sum_list (map (\<lambda>ov. count_char comma (createTextFilter str ov w h)) ovs)"
    by (rule sum_list_mono) (rule count_comma_createTextFilter)
  moreover have "sum_list (map (\<lambda>ov. 2 + count_char comma (ov_text ov)) ovs)
      = 2 * length ovs + sum_list (map (\<lambda>ov. count_char comma (ov_text ov)) ovs)"
    by (induction ovs) simp_all
  ultimately show ?thesis
    by (cases ovs) (simp_all add: filterComplex_def count_char_join comp_def count_comma_literals)
qed

text \<open>
  Reading back an escaped text that contains no backslash returns the text and stops at
  the closing quote.
\<close>

lemma read_quoted_escapedText:
  "backslash \<notin> set t \<Longrightarrow> read_quoted (escapedText t @ squote # rest) = Some (t, rest)"
proof (induction t)
  case Nil
  then show ?case by (cases rest) simp_all
next
  case (Cons c t)
  then show ?case
    by (cases "escapedText t @ squote # rest")
       (auto simp: escapedText_Cons squote_def backslash_def colon_def)
qed


text \<open>
  Claim C10.  The escaping step rewrites the quote and the colon and copies every other
  character; the commas of a text reach the compiled expression as they are, in the same
  number.  Split at its commas, the filter graph of a list of overlays has at least three
  pieces per overlay and one more for every comma in a text.  For the overlay with the
  text \<^verbatim>\<open>Hello, world\<close> the escaped text is the text itself and the graph of this
  one overlay splits into four pieces.
\<close>

theorem comma_passes_unescaped:
  "escapedText t =
     concat (map (\<lambda>c. if c = squote then [backslash, squote]
                       else if c = colon then [backslash, colon] else [c]) t)
   \<and> count_char comma (escapedText t) = count_char comma t
   \<and> length (split_at comma (filterComplex str ovs w h))
        \<ge> 3 * length ovs + sum_list (map (\<lambda>ov. count_char comma (ov_text ov)) ovs)
   \<and> escapedText (ov_text commaOverlay) = ''Hello, world''
   \<and> length (split_at comma (filterComplex Number_toString [commaOverlay] 1920 1080)) = 4
   \<and> length [commaOverlay] = 1"
proof (intro conjI)
  show "escapedText t =
     concat (map (\<lambda>c. if c = squote then [backslash, squote]
                       else if c = colon then [backslash, colon] else [c]) t)"
    by (rule escapedText_charwise)
  show "count_char comma (escapedText t) = count_char comma t"
    by (rule count_comma_escapedText)
  show "length (split_at comma (filterComplex str ovs w h))
        \<ge> 3 * length ovs + sum_list (map (\<lambda>ov. count_char comma (ov_text ov)) ovs)"
    using count_comma_filterComplex [of ovs str w h] by (simp add: length_split_at)
  show "escapedText (ov_text commaOverlay) = ''Hello, world''"
    by code_simp
  show "length (split_at comma (filterComplex Number_toString [commaOverlay] 1920 1080)) = 4"
    by code_simp
  show "length [commaOverlay] = 1"
    by simp
qed




lemma cmd_complexFilter_buildCommand:
  "cmd_complexFilter (buildCommand str p cap ovs vs out) =
     (if ovs = [] then None else Some (filterComplex str ovs (st_width vs) (st_height vs)))"
  by (simp add: buildCommand_def ffmpeg_def Let_def split: option.split)

text \<open>
  Claim C2.  The escaping step leaves a backslash of the text alone.  For the text that
  is a backslash followed by a quote, the compiled value is two backslashes and a quote
  between the delimiting quotes: read back, the value is a single backslash, it ends at
  the quote that came from the text, and the delimiting quote is left over in front of
  the remaining parameters.
\<close>

theorem backslash_quote_breaks_text:
  "escapedText (ov_text backslashQuoteOverlay) = [backslash, backslash, squote]
   \<and> createTextFilter Number_toString backslashQuoteOverlay 1920 1080 =
       ''drawtext=text='' @ [squote] @ [backslash, backslash, squote] @ [squote]
       @ '':x=288:y=540:fontsize=115:fontcolor=#ffffff:borderw=2:bordercolor=#000000:enable=''
       @ [squote] @ ''between(t,0,5)'' @ [squote]
   \<and> read_quoted ([backslash, backslash, squote] @ [squote] @ rest)
       = Some ([backslash], squote # rest)
   \<and> ov_text backslashQuoteOverlay \<noteq> [backslash]"
proof (intro conjI)
  show "escapedText (ov_text backslashQuoteOverlay) = [backslash, backslash, squote]"
    by code_simp
  show "createTextFilter Number_toString backslashQuoteOverlay 1920 1080 =
       ''drawtext=text='' @ [squote] @ [backslash, backslash, squote] @ [squote]
       @ '':x=288:y=540:fontsize=115:fontcolor=#ffffff:borderw=2:bordercolor=#000000:enable=''
       @ [squote] @ ''between(t,0,5)'' @ [squote]"
    by code_simp
  show "read_quoted ([backslash, backslash, squote] @ [squote] @ rest)
       = Some ([backslash], squote # rest)"
    by (simp add: squote_def backslash_def)
  show "ov_text backslashQuoteOverlay \<noteq> [backslash]"
    by (simp add: backslashQuoteOverlay_def)
qed

text \<open>
  Claim C1 as stated fails: for a video of 60 seconds and a limit of 20 the effective
  duration is 20, and in the command of a job with that limit the overlay with the
  window 18 to 25 is compiled with the window 18 to 25, not 18 to 20.
\<close>

theorem late_window_not_clamped:
  "cmd_complexFilter (buildCommand Number_toString (Uploads, ''u1-clip.mp4'') (Some 20)
       [lateOverlay] hdStream (Output, ''processed-clip-t0.mp4'')) =
     Some (''drawtext=text='' @ [squote] @ ''Hello'' @ [squote]
       @ '':x=288:y=540:fontsize=115:fontcolor=#ffffff:borderw=2:bordercolor=#000000:enable=''
       @ [squote] @ ''between(t,18,25)'' @ [squote])
   \<and> cmd_duration (buildCommand Number_toString (Uploads, ''u1-clip.mp4'') (Some 20)
       [lateOverlay] hdStream (Output, ''processed-clip-t0.mp4'')) = Some 20
   \<and> getEffectiveDuration 20 minuteVideo = 20
   \<and> min (ov_endTime lateOverlay) (getEffectiveDuration 20 minuteVideo) = 20
   \<and> Number_toString 20 = ''20''"
  by code_simp

text \<open>
  Claim C1, amended.  The compiler writes the window of an overlay as it receives it,
  and the filter graph of a command does not depend on the duration limit.  The clamping
  is the editor's: when a limit \<open>d\<close> below 300 is chosen, every overlay gets the window
  \<open>min startTime (d - 0.5)\<close>, \<open>min endTime d\<close>, and a window with
  \<open>startTime < endTime\<close> keeps that order; a limit of 300 or more leaves the overlays
  as they are.
\<close>

theorem window_as_received_and_editor_clamp:
  assumes "i < length (app_videos st)" and "j < length (vf_textOverlays (app_videos st ! i))"
  shows "(\<exists>pre. createTextFilter str ov w h =
            pre @ '':enable='' @ [squote] @ ''between(t,'' @ str (ov_startTime ov) @ '',''
            @ str (ov_endTime ov) @ '')'' @ [squote])
    \<and> cmd_complexFilter (buildCommand str p cap ovs vs out) =
         (if ovs = [] then None else Some (filterComplex str ovs (st_width vs) (st_height vs)))
    \<and> (let overlay = vf_textOverlays (app_videos st ! i) ! j;
            overlay' = vf_textOverlays (app_videos (handleMaxDurationChange d st) ! i) ! j
        in if d < 300
           then ov_startTime overlay' = min (ov_startTime overlay) (d - 1 / 2)
                \<and> ov_endTime overlay' = min (ov_endTime overlay) d
                \<and> (ov_startTime overlay < ov_endTime overlay
                     \<longrightarrow> ov_startTime overlay' < ov_endTime overlay')
           else overlay' = overlay)"
proof (intro conjI)
  show "\<exists>pre. createTextFilter str ov w h =
            pre @ '':enable='' @ [squote] @ ''between(t,'' @ str (ov_startTime ov) @ '',''
            @ str (ov_endTime ov) @ '')'' @ [squote]"
    unfolding createTextFilter_def Let_def by blast
  show "cmd_complexFilter (buildCommand str p cap ovs vs out) =
         (if ovs = [] then None else Some (filterComplex str ovs (st_width vs) (st_height vs)))"
    by (rule cmd_complexFilter_buildCommand)
  show "let overlay = vf_textOverlays (app_videos st ! i) ! j;
            overlay' = vf_textOverlays (app_videos (handleMaxDurationChange d st) ! i) ! j
        in if d < 300
           then ov_startTime overlay' = min (ov_startTime overlay) (d - 1 / 2)
                \<and> ov_endTime overlay' = min (ov_endTime overlay) d
                \<and> (ov_startTime overlay < ov_endTime overlay
                     \<longrightarrow> ov_startTime overlay' < ov_endTime overlay')
           else overlay' = overlay"
    using assms by (auto simp: handleMaxDurationChange_def Let_def)
qed

text \<open>The video of 60 seconds under a limit of 20: the window 18 to 25 becomes 18 to 20.\<close>

theorem window_as_received_and_editor_clamp_witness:
  "(0::nat) < length (app_videos \<lparr>app_maxDuration = 300, app_videos = [minuteVideo]\<rparr>)
   \<and> (0::nat) < length (vf_textOverlays (app_videos \<lparr>app_maxDuration = 300, app_videos = [minuteVideo]\<rparr> ! 0))
   \<and> ov_startTime (vf_textOverlays (app_videos (handleMaxDurationChange 20
         \<lparr>app_maxDuration = 300, app_videos = [minuteVideo]\<rparr>) ! 0) ! 0) = 18
   \<and> ov_endTime (vf_textOverlays (app_videos (handleMaxDurationChange 20
         \<lparr>app_maxDuration = 300, app_videos = [minuteVideo]\<rparr>) ! 0) ! 0) = 20"
proof -
  let ?st = "\<lparr>app_maxDuration = 300, app_videos = [minuteVideo]\<rparr>"
  have h1: "(0::nat) < length (app_videos ?st)" by simp
  have h2: "(0::nat) < length (vf_textOverlays (app_videos ?st ! 0))"
    by (simp add: minuteVideo_def)
  have ov: "vf_textOverlays (app_videos ?st ! 0) ! 0 = lateOverlay"
    by (simp add: minuteVideo_def)
  from window_as_received_and_editor_clamp [OF h1 h2, of Number_toString lateOverlay 1920 1080
      "(Uploads, [])" None "[]" hdStream "(Output, [])" 20]
  show ?thesis using h1 h2 unfolding ov
    by (simp add: Let_def lateOverlay_def helloOverlay_def)
qed




section \<open>Properties of the lifecycle sweep\<close>

lemma sv_files_fs_remove:
  "sv_files (fs_remove (a, n) s) = (sv_files s)(a := dir_remove (sv_files s a) n)"
  by (simp add: fs_remove_def)

lemma stat_filter_distinct:
  "distinct (readdir d) \<Longrightarrow>
   stat (filter P d) n = (case stat d n of None \<Rightarrow> None | Some m \<Rightarrow> if P (n, m) then Some m else None)"
proof (induction d)
  case Nil
  then show ?case by (simp add: stat_def)
next
  case (Cons e d)
  obtain k v where e: "e = (k, v)" by (cases e)
  from Cons.prems have notin: "k \<notin> fst ` set d" and dist: "distinct (readdir d)"
    by (simp_all add: readdir_def e)
  have absent: "map_of (filter P d) k = None"
    using notin by (auto simp: map_of_eq_None_iff)
  show ?case
    using Cons.IH [OF dist] absent by (auto simp: stat_def e split: option.splits)
qed

lemma stat_listed:
  "n \<in> set (readdir d) \<Longrightarrow> \<exists>m. stat d n = Some m \<and> (n, m) \<in> set d"
  unfolding readdir_def stat_def
  by (metis (no_types, opaque_lifting) map_of_SomeD map_of_eq_None_iff not_Some_eq set_map)

lemma cleanupLoop_files:
  assumes "distinct (readdir (sv_files s a))" and "distinct names"
    and "set names \<subseteq> set (readdir (sv_files s a))"
  shows "cleanupLoop now a names s =
           (True, snd (cleanupLoop now a names s))
         \<and> sv_files (snd (cleanupLoop now a names s)) =
             (sv_files s)(a := filter (\<lambda>e. \<not> (fst e \<in> set names \<and> now - snd e > maxAge))
                                      (sv_files s a))"
  using assms
proof (induction names arbitrary: s)
  case Nil
  then show ?case by simp
next
  case (Cons n ns)
  let ?d = "sv_files s a"
  from Cons.prems obtain m where m: "stat ?d n = Some m" "(n, m) \<in> set ?d"
    using stat_listed [of n ?d] by auto
  have uniq: "\<And>e. e \<in> set ?d \<Longrightarrow> fst e = n \<Longrightarrow> e = (n, m)"
    using Cons.prems(1) m(1)
    by (metis map_of_eq_Some_iff prod.collapse readdir_def stat_def option.inject)
  from Cons.prems have n_notin: "n \<notin> set ns" and dns: "distinct ns"
    and sub: "set ns \<subseteq> set (readdir ?d)" by auto
  show ?case
  proof (cases "now - m > maxAge")
    case True
    let ?s' = "fs_remove (a, n) s"
    have d': "sv_files ?s' a = filter (\<lambda>e. fst e \<noteq> n) ?d"
      by (simp add: sv_files_fs_remove dir_remove_def)
    have p1: "distinct (readdir (sv_files ?s' a))"
      using Cons.prems(1) unfolding d' readdir_def by (rule distinct_map_filter)
    have p3: "set ns \<subseteq> set (readdir (sv_files ?s' a))"
      using sub n_notin unfolding d' readdir_def by auto
    note IH = Cons.IH [OF p1 dns p3]
    have eq: "filter (\<lambda>e. \<not> (fst e \<in> set ns \<and> now - snd e > maxAge)) (filter (\<lambda>e. fst e \<noteq> n) ?d)
            = filter (\<lambda>e. \<not> (fst e \<in> set (n # ns) \<and> now - snd e > maxAge)) ?d"
      unfolding filter_filter
      by (rule filter_cong [OF refl]) (use uniq True in fastforce)
    have step: "cleanupLoop now a (n # ns) s = cleanupLoop now a ns ?s'"
      using m(1) True by simp
    have "(sv_files ?s')(a := filter (\<lambda>e. \<not> (fst e \<in> set ns \<and> now - snd e > maxAge))
                                    (sv_files ?s' a))
          = (sv_files s)(a := filter (\<lambda>e. \<not> (fst e \<in> set (n # ns) \<and> now - snd e > maxAge)) ?d)"
      unfolding d' eq by (simp add: sv_files_fs_remove)
    with IH show ?thesis
      unfolding step by (simp only:)
  next
    case False
    note IH = Cons.IH [OF Cons.prems(1) dns sub]
    have eq: "filter (\<lambda>e. \<not> (fst e \<in> set ns \<and> now - snd e > maxAge)) ?d
            = filter (\<lambda>e. \<not> (fst e \<in> set (n # ns) \<and> now - snd e > maxAge)) ?d"
      by (rule filter_cong [OF refl]) (use uniq False in fastforce)
    have step: "cleanupLoop now a (n # ns) s = cleanupLoop now a ns s"
      using m(1) False by simp
    from IH show ?thesis
      unfolding step eq by (simp only:)
  qed
qed

lemma cleanupLoop_noop:
  "(\<And>n. n \<in> set names \<Longrightarrow> \<exists>m. stat (sv_files s a) n = Some m \<and> \<not> now - m > maxAge)
   \<Longrightarrow> cleanupLoop now a names s = (True, s)"
proof (induction names)
  case Nil
  then show ?case by simp
next
  case (Cons n ns)
  from Cons.prems [of n] obtain m where "stat (sv_files s a) n = Some m" "\<not> now - m > maxAge"
    by auto
  moreover have "cleanupLoop now a ns s = (True, s)"
    by (rule Cons.IH) (simp add: Cons.prems)
  ultimately show ?case by simp
qed

lemma cleanupLoop_all:
  assumes "distinct (readdir (sv_files s a))"
  shows "cleanupLoop now a (readdir (sv_files s a)) s
           = (True, snd (cleanupLoop now a (readdir (sv_files s a)) s))"
    and "sv_files (snd (cleanupLoop now a (readdir (sv_files s a)) s)) =
           (sv_files s)(a := filter (\<lambda>e. \<not> now - snd e > maxAge) (sv_files s a))"
proof -
  have eq: "filter (\<lambda>e. \<not> (fst e \<in> set (readdir (sv_files s a)) \<and> now - snd e > maxAge))
              (sv_files s a)
            = filter (\<lambda>e. \<not> now - snd e > maxAge) (sv_files s a)"
    by (rule filter_cong [OF refl]) (simp add: readdir_def)
  from cleanupLoop_files [OF assms assms subset_refl, of now]
  show "cleanupLoop now a (readdir (sv_files s a)) s
           = (True, snd (cleanupLoop now a (readdir (sv_files s a)) s))"
    and "sv_files (snd (cleanupLoop now a (readdir (sv_files s a)) s)) =
           (sv_files s)(a := filter (\<lambda>e. \<not> now - snd e > maxAge) (sv_files s a))"
    unfolding eq by simp_all
qed

lemma cleanupOldFiles_files:
  assumes "wf_server s"
  shows "sv_files (cleanupOldFiles now s) a = filter (\<lambda>e. \<not> now - snd e > maxAge) (sv_files s a)"
proof -
  let ?r1 = "cleanupLoop now Output (readdir (sv_files s Output)) s"
  let ?s1 = "snd ?r1"
  from assms have dO: "distinct (readdir (sv_files s Output))"
    and dU: "distinct (readdir (sv_files s Uploads))"
    by (simp_all add: wf_server_def)
  have r1: "?r1 = (True, ?s1)" by (rule cleanupLoop_all(1) [OF dO])
  have f1: "sv_files ?s1 = (sv_files s)(Output := filter (\<lambda>e. \<not> now - snd e > maxAge) (sv_files s Output))"
    by (rule cleanupLoop_all(2) [OF dO])
  have u1: "sv_files ?s1 Uploads = sv_files s Uploads"
    by (simp add: f1)
  have dU1: "distinct (readdir (sv_files ?s1 Uploads))"
    using dU by (simp only: u1)
  have res: "cleanupOldFiles now s
      = snd (cleanupLoop now Uploads (readdir (sv_files ?s1 Uploads)) ?s1)"
    unfolding cleanupOldFiles_def by (subst r1) simp
  have f2: "sv_files (cleanupOldFiles now s)
      = (sv_files ?s1)(Uploads := filter (\<lambda>e. \<not> now - snd e > maxAge) (sv_files ?s1 Uploads))"
    unfolding res by (rule cleanupLoop_all(2) [OF dU1])
  show ?thesis
    unfolding f2 by (cases a) (simp_all add: f1)
qed

lemma cleanupOldFiles_idem:
  assumes "wf_server s"
  shows "cleanupOldFiles now (cleanupOldFiles now s) = cleanupOldFiles now s"
proof -
  let ?s' = "cleanupOldFiles now s"
  have fresh: "\<exists>m. stat (sv_files ?s' a) n = Some m \<and> \<not> now - m > maxAge"
    if "n \<in> set (readdir (sv_files ?s' a))" for a n
  proof -
    from stat_listed [OF that] obtain m
      where "stat (sv_files ?s' a) n = Some m" "(n, m) \<in> set (sv_files ?s' a)" by blast
    then show ?thesis
      by (auto simp: cleanupOldFiles_files [OF assms])
  qed
  have o: "cleanupLoop now Output (readdir (sv_files ?s' Output)) ?s' = (True, ?s')"
    by (rule cleanupLoop_noop) (rule fresh)
  have u: "cleanupLoop now Uploads (readdir (sv_files ?s' Uploads)) ?s' = (True, ?s')"
    by (rule cleanupLoop_noop) (rule fresh)
  show ?thesis
    by (subst (1) cleanupOldFiles_def) (simp add: o u)
qed

text \<open>
  Claim C9.  On a server whose directories are well formed, one pass at time \<open>now\<close>
  leaves no artifact of either area whose age \<open>now - mtime\<close> exceeds the retention
  window of 24 hours, keeps every artifact whose age is below the window, with its time
  stamp, and a second pass at the same time changes nothing in the state.
\<close>

theorem sweep_removes_old_keeps_young_idempotent:
  assumes "wf_server s"
  shows "(\<forall>a n m. stat (sv_files s a) n = Some m \<and> now - m > maxAge
            \<longrightarrow> \<not> pathExists (cleanupOldFiles now s) (a, n))
       \<and> (\<forall>a n m. stat (sv_files s a) n = Some m \<and> now - m < maxAge
            \<longrightarrow> stat (sv_files (cleanupOldFiles now s) a) n = Some m)
       \<and> cleanupOldFiles now (cleanupOldFiles now s) = cleanupOldFiles now s
       \<and> maxAge = 24 * hour"
proof (intro conjI allI impI)
  fix a n m
  assume "stat (sv_files s a) n = Some m \<and> now - m > maxAge"
  moreover from assms have "distinct (readdir (sv_files s a))"
    by (cases a) (simp_all add: wf_server_def)
  ultimately show "\<not> pathExists (cleanupOldFiles now s) (a, n)"
    by (simp add: pathExists_def cleanupOldFiles_files [OF assms] stat_filter_distinct)
next
  fix a n m
  assume "stat (sv_files s a) n = Some m \<and> now - m < maxAge"
  moreover from assms have "distinct (readdir (sv_files s a))"
    by (cases a) (simp_all add: wf_server_def)
  ultimately show "stat (sv_files (cleanupOldFiles now s) a) n = Some m"
    by (simp add: cleanupOldFiles_files [OF assms] stat_filter_distinct)
next
  show "cleanupOldFiles now (cleanupOldFiles now s) = cleanupOldFiles now s"
    by (rule cleanupOldFiles_idem [OF assms])
next
  show "maxAge = 24 * hour" by (simp add: maxAge_def hour_def)
qed

text \<open>
  The specification's fourth scenario: at hour 100 the output that is 25 hours old is
  deleted and the one that is one hour old survives.
\<close>

theorem sweep_removes_old_keeps_young_idempotent_witness:
  "wf_server agedServer
   \<and> stat (sv_files agedServer Output) ''processed-old.mp4'' = Some (75 * hour)
   \<and> 100 * hour - 75 * hour > maxAge
   \<and> \<not> pathExists (cleanupOldFiles (100 * hour) agedServer) (Output, ''processed-old.mp4'')
   \<and> stat (sv_files agedServer Output) ''processed-new.mp4'' = Some (99 * hour)
   \<and> 100 * hour - 99 * hour < maxAge
   \<and> stat (sv_files (cleanupOldFiles (100 * hour) agedServer) Output) ''processed-new.mp4''
       = Some (99 * hour)
   \<and> cleanupOldFiles (100 * hour) (cleanupOldFiles (100 * hour) agedServer)
       = cleanupOldFiles (100 * hour) agedServer"
proof -
  have wf: "wf_server agedServer"
    by (simp add: wf_server_def agedServer_def readdir_def)
  have old: "stat (sv_files agedServer Output) ''processed-old.mp4'' = Some (75 * hour)
             \<and> 100 * hour - 75 * hour > maxAge"
    by (simp add: agedServer_def stat_def maxAge_def hour_def)
  have young: "stat (sv_files agedServer Output) ''processed-new.mp4'' = Some (99 * hour)
             \<and> 100 * hour - 99 * hour < maxAge"
    by (simp add: agedServer_def stat_def maxAge_def hour_def)
  from sweep_removes_old_keeps_young_idempotent [OF wf, of "100 * hour"] old young wf
  show ?thesis by blast
qed

section \<open>Properties of the single-video handler\<close>

lemma stat_dir_remove: "stat (dir_remove d n) k = (if k = n then None else stat d k)"
  by (induction d) (auto simp: stat_def dir_remove_def)

lemma stat_dir_write: "stat (dir_write d n t) k = (if k = n then Some t else stat d k)"
  by (simp add: dir_write_def stat_def stat_dir_remove [unfolded stat_def])

lemma pathExists_fs_remove: "pathExists (fs_remove p s) q = (q \<noteq> p \<and> pathExists s q)"
  by (cases p; cases q) (auto simp: pathExists_def fs_remove_def stat_dir_remove)

lemma pathExists_fs_write: "pathExists (fs_write p t s) q = (q = p \<or> pathExists s q)"
  by (cases p; cases q) (auto simp: pathExists_def fs_write_def stat_dir_write)

lemma pathExists_uuids [simp]: "pathExists (s\<lparr>sv_uuids := k\<rparr>) q = pathExists s q"
  by (simp add: pathExists_def)

lemma sv_removed_fs_remove [simp]: "sv_removed (fs_remove p s) = sv_removed s @ [p]"
  by (simp add: fs_remove_def)

lemma sv_removed_fs_write [simp]: "sv_removed (fs_write p t s) = sv_removed s"
  by (simp add: fs_write_def)

text \<open>The state that a request with a file leaves, by the outcome of its encoder run.\<close>

lemma processVideo_state:
  assumes "req_file req = Some file"
  shows "snd (processVideo e req s) =
     fs_remove (mf_path file)
       (case encoderOutcome e req file s of
          None \<Rightarrow> s\<lparr>sv_uuids := Suc (sv_uuids s)\<rparr>
        | Some EncodeEnd \<Rightarrow>
            fs_write (Output, outputName e req s) (clock e) (s\<lparr>sv_uuids := Suc (sv_uuids s)\<rparr>)
        | Some (EncodeError msg partial) \<Rightarrow>
            if partial
            then fs_write (Output, outputName e req s) (clock e) (s\<lparr>sv_uuids := Suc (sv_uuids s)\<rparr>)
            else s\<lparr>sv_uuids := Suc (sv_uuids s)\<rparr>)"
  using assms
  by (simp add: processVideo_def processVideo_try_def encoderOutcome_def run_def Let_def
        buildCommand_def
      split: sum.split option.split encode_result.split)

lemma processVideo_response:
  assumes "req_file req = Some file"
  shows "fst (processVideo e req s) =
     (case encoderOutcome e req file s of
        Some EncodeEnd \<Rightarrow>
          Success (outputName e req s) (''/api/download/'' @ outputName e req s)
      | Some (EncodeError msg partial) \<Rightarrow> Status500 ''Video processing failed'' msg
      | None \<Rightarrow>
          Status500 ''Video processing failed''
            (case ffprobe e (mf_path file) of Inl err \<Rightarrow> err
             | Inr streams \<Rightarrow> ''Cannot read properties of undefined''))"
  using assms
  by (simp add: processVideo_def processVideo_try_def encoderOutcome_def run_def Let_def
        buildCommand_def
      split: sum.split option.split encode_result.split)

text \<open>
  Claim C3 as stated fails: when the encoder fails after it has written part of the
  output, the job ends with the 500 response and the output artifact, which was not
  there before, exists afterwards; the only path removed is the upload.
\<close>

theorem failed_job_leaves_partial_output:
  "fst (processVideo brokenEncoderEnv clipRequest oneUploadServer)
     = Status500 ''Video processing failed'' ''ffmpeg exited with code 1''
   \<and> pathExists (snd (processVideo brokenEncoderEnv clipRequest oneUploadServer))
        (Output, ''processed-clip-t0.mp4'')
   \<and> \<not> pathExists oneUploadServer (Output, ''processed-clip-t0.mp4'')
   \<and> sv_removed (snd (processVideo brokenEncoderEnv clipRequest oneUploadServer))
        = [(Uploads, ''u1-clip.mp4'')]"
  by code_simp

text \<open>
  Claim C3, amended.  A request with a file removes its upload with exactly one call of
  \<^verbatim>\<open>fs.remove\<close> and removes nothing else, whatever the outcome, and the upload is absent
  afterwards.  The job succeeds exactly when the encoder run ends without error, and
  then the output artifact exists.  Otherwise the answer is the 500 response and the
  handler does not touch the output area: the output artifact exists afterwards exactly
  when it existed before or the encoder left a partially written file.
\<close>

theorem single_job_artifacts:
  assumes "req_file req = Some file"
  shows "sv_removed (snd (processVideo e req s)) = sv_removed s @ [mf_path file]
    \<and> \<not> pathExists (snd (processVideo e req s)) (mf_path file)
    \<and> (fst (processVideo e req s)
          = Success (outputName e req s) (''/api/download/'' @ outputName e req s)
        \<longleftrightarrow> encoderOutcome e req file s = Some EncodeEnd)
    \<and> (if encoderOutcome e req file s = Some EncodeEnd
        then pathExists (snd (processVideo e req s)) (Output, outputName e req s)
        else (\<exists>msg. fst (processVideo e req s) = Status500 ''Video processing failed'' msg)
           \<and> (pathExists (snd (processVideo e req s)) (Output, outputName e req s)
                \<longleftrightarrow> pathExists s (Output, outputName e req s)
                    \<or> (\<exists>msg. encoderOutcome e req file s = Some (EncodeError msg True))))"
proof (intro conjI)
  note st = processVideo_state [OF assms, of e s]
  note rs = processVideo_response [OF assms, of e s]
  show "sv_removed (snd (processVideo e req s)) = sv_removed s @ [mf_path file]"
    unfolding st by (simp split: option.split encode_result.split)
  show "\<not> pathExists (snd (processVideo e req s)) (mf_path file)"
    unfolding st by (simp add: pathExists_fs_remove)
  show "fst (processVideo e req s)
          = Success (outputName e req s) (''/api/download/'' @ outputName e req s)
        \<longleftrightarrow> encoderOutcome e req file s = Some EncodeEnd"
    unfolding rs by (simp split: option.split encode_result.split)
  show "if encoderOutcome e req file s = Some EncodeEnd
        then pathExists (snd (processVideo e req s)) (Output, outputName e req s)
        else (\<exists>msg. fst (processVideo e req s) = Status500 ''Video processing failed'' msg)
           \<and> (pathExists (snd (processVideo e req s)) (Output, outputName e req s)
                \<longleftrightarrow> pathExists s (Output, outputName e req s)
                    \<or> (\<exists>msg. encoderOutcome e req file s = Some (EncodeError msg True)))"
    unfolding st rs
    by (simp add: pathExists_fs_remove pathExists_fs_write mf_path_def
          split: option.split encode_result.split)
qed

text \<open>A job that succeeds: the upload is removed once and the output exists.\<close>

theorem single_job_artifacts_witness:
  "req_file clipRequest = Some clipUpload
   \<and> encoderOutcome goodEnv clipRequest clipUpload oneUploadServer = Some EncodeEnd
   \<and> sv_removed (snd (processVideo goodEnv clipRequest oneUploadServer)) = [(Uploads, ''u1-clip.mp4'')]
   \<and> \<not> pathExists (snd (processVideo goodEnv clipRequest oneUploadServer)) (Uploads, ''u1-clip.mp4'')
   \<and> pathExists (snd (processVideo goodEnv clipRequest oneUploadServer))
        (Output, outputName goodEnv clipRequest oneUploadServer)
   \<and> outputName goodEnv clipRequest oneUploadServer = ''processed-clip-t0.mp4''"
proof -
  have f: "req_file clipRequest = Some clipUpload"
    by (simp add: clipRequest_def)
  have o: "encoderOutcome goodEnv clipRequest clipUpload oneUploadServer = Some EncodeEnd"
    by code_simp
  have n: "outputName goodEnv clipRequest oneUploadServer = ''processed-clip-t0.mp4''"
    by code_simp
  have p: "mf_path clipUpload = (Uploads, ''u1-clip.mp4'')" "sv_removed oneUploadServer = []"
    by (simp_all add: mf_path_def clipUpload_def oneUploadServer_def)
  from single_job_artifacts [OF f, of goodEnv oneUploadServer] f o n
  show ?thesis by (simp add: p)
qed

section \<open>Properties of the batch handler\<close>

lemma batchLoop_outcomes:
  "length files \<le> length videos \<Longrightarrow>
   fst (batchLoop e files videos results errors s) =
     Inr (results @ resultEntries (itemOutcomes e files videos s),
          errors @ errorEntries videos (itemOutcomes e files videos s))"
proof (induction e files videos results errors s rule: batchLoop.induct)
  case (1 e videos results errors s)
  then show ?case by (cases videos) simp_all
next
  case (2 e upload files results errors s)
  then show ?case by simp
next
  case (3 e upload files videoData videos results errors s)
  obtain r s' where p: "processItem e upload videoData s = (r, s')"
    by (cases "processItem e upload videoData s")
  from "3.prems" have len: "length files \<le> length videos" by simp
  show ?case
  proof (cases r)
    case (Inl err)
    with "3.IH"(1) [OF p [symmetric] Inl len] p show ?thesis by simp
  next
    case (Inr entry)
    with "3.IH"(2) [OF p [symmetric] Inr len] p show ?thesis by simp
  qed
qed

lemma batchLoop_short_metadata:
  "length videos < length files \<Longrightarrow> \<exists>msg. fst (batchLoop e files videos results errors s) = Inl msg"
proof (induction e files videos results errors s rule: batchLoop.induct)
  case (1 e videos results errors s)
  then show ?case by simp
next
  case (2 e upload files results errors s)
  then show ?case by simp
next
  case (3 e upload files videoData videos results errors s)
  obtain r s' where p: "processItem e upload videoData s = (r, s')"
    by (cases "processItem e upload videoData s")
  from "3.prems" have len: "length videos < length files" by simp
  show ?case
  proof (cases r)
    case (Inl err)
    with "3.IH"(1) [OF p [symmetric] Inl len] p show ?thesis by simp
  next
    case (Inr entry)
    with "3.IH"(2) [OF p [symmetric] Inr len] p show ?thesis by simp
  qed
qed

lemma length_itemOutcomes:
  "length files \<le> length videos \<Longrightarrow> length (itemOutcomes e files videos s) = length files"
proof (induction e files videos s rule: itemOutcomes.induct)
  case (3 e upload files videoData videos s)
  obtain r s' where p: "processItem e upload videoData s = (r, s')"
    by (cases "processItem e upload videoData s")
  from "3.prems" have len: "length files \<le> length videos" by simp
  show ?case
  proof (cases r)
    case (Inl err)
    with "3.IH"(1) [OF p [symmetric] Inl len] p show ?thesis by simp
  next
    case (Inr entry)
    with "3.IH"(2) [OF p [symmetric] Inr len] p show ?thesis by simp
  qed
qed simp_all

lemma length_entries:
  "length os \<le> length videos \<Longrightarrow>
   length (resultEntries os) + length (errorEntries videos os) = length os"
proof (induction os arbitrary: videos)
  case Nil
  then show ?case by simp
next
  case (Cons out os)
  then obtain v vs where v: "videos = v # vs" by (cases videos) auto
  with Cons show ?case by (cases out) simp_all
qed

lemma entries_all_succeed:
  "(\<And>j. j < length os \<Longrightarrow> \<exists>r. os ! j = Inr r) \<Longrightarrow>
   errorEntries videos os = [] \<and> length (resultEntries os) = length os"
proof (induction os arbitrary: videos)
  case Nil
  then show ?case by simp
next
  case (Cons out os)
  from Cons.prems [of 0] obtain r where r: "out = Inr r" by auto
  have rest: "\<And>j. j < length os \<Longrightarrow> \<exists>r. os ! j = Inr r"
    using Cons.prems [of "Suc j" for j] by simp
  from Cons.IH [OF rest] show ?case
    by (cases videos) (simp_all add: r)
qed

lemma entries_one_failure:
  assumes "length os \<le> length videos" and "k < length os" and "os ! k = Inl err"
    and "\<And>j. j < length os \<Longrightarrow> j \<noteq> k \<Longrightarrow> \<exists>r. os ! j = Inr r"
  shows "errorEntries videos os = [\<lparr>ee_originalName = vd_name (videos ! k), ee_error = err\<rparr>]
       \<and> length (resultEntries os) = length os - 1"
  using assms
proof (induction os arbitrary: videos k)
  case Nil
  then show ?case by simp
next
  case (Cons out os)
  from Cons.prems(1) obtain v vs where v: "videos = v # vs" by (cases videos) auto
  show ?case
  proof (cases k)
    case 0
    with Cons.prems(3) have out: "out = Inl err" by simp
    have "\<And>j. j < length os \<Longrightarrow> \<exists>r. os ! j = Inr r"
      using Cons.prems(4) [of "Suc j" for j] 0 by simp
    from entries_all_succeed [OF this, of vs] show ?thesis
      by (simp add: v out 0)
  next
    case (Suc k')
    from Cons.prems(4) [of 0] Suc obtain r where out: "out = Inr r" by auto
    have rest: "\<And>j. j < length os \<Longrightarrow> j \<noteq> k' \<Longrightarrow> \<exists>r. os ! j = Inr r"
      using Cons.prems(4) [of "Suc j" for j] Suc by simp
    from Cons.prems Suc v have "length os \<le> length vs" "k' < length os" "os ! k' = Inl err"
      by simp_all
    from Cons.IH [OF this rest] Cons.prems(2) show ?thesis
      by (simp add: v out Suc)
  qed
qed

text \<open>
  Claim C4.  In a non-empty batch with metadata for every upload, every item has an
  outcome, and the response lists the entries of all of them: the successes in
  \<^verbatim>\<open>results\<close>, the failures in \<^verbatim>\<open>errors\<close>, together as many as there are uploads.
  When the item at position \<open>k\<close> is the only one that fails, \<^verbatim>\<open>processed\<close> is the
  number of uploads less one and \<^verbatim>\<open>errors\<close> is the single entry with the name of the
  metadata at position \<open>k\<close> and the item's error message.
\<close>

theorem batch_isolates_item_failures:
  assumes "files \<noteq> []" and "length files \<le> length videos"
  shows "length (itemOutcomes e files videos s) = length files
    \<and> fst (processBatch e \<lparr>breq_files = files, breq_videosData = Some videos\<rparr> s) =
        BatchJson (length (resultEntries (itemOutcomes e files videos s))) (length files)
          (resultEntries (itemOutcomes e files videos s))
          (errorEntries videos (itemOutcomes e files videos s))
    \<and> length (resultEntries (itemOutcomes e files videos s))
        + length (errorEntries videos (itemOutcomes e files videos s)) = length files
    \<and> (\<forall>k err. k < length files \<and> itemOutcomes e files videos s ! k = Inl err
          \<and> (\<forall>j. j < length files \<and> j \<noteq> k \<longrightarrow> (\<exists>r. itemOutcomes e files videos s ! j = Inr r))
        \<longrightarrow> length (resultEntries (itemOutcomes e files videos s)) = length files - 1
          \<and> errorEntries videos (itemOutcomes e files videos s)
              = [\<lparr>ee_originalName = vd_name (videos ! k), ee_error = err\<rparr>])"
proof -
  let ?os = "itemOutcomes e files videos s"
  have len: "length ?os = length files"
    by (rule length_itemOutcomes [OF assms(2)])
  have loop: "fst (batchLoop e files videos [] [] s) = Inr (resultEntries ?os, errorEntries videos ?os)"
    using batchLoop_outcomes [OF assms(2), of e "[]" "[]" s] by simp
  have resp: "fst (processBatch e \<lparr>breq_files = files, breq_videosData = Some videos\<rparr> s) =
        BatchJson (length (resultEntries ?os)) (length files) (resultEntries ?os)
          (errorEntries videos ?os)"
    using assms(1) loop
    by (cases "batchLoop e files videos [] [] s") (simp add: processBatch_def)
  have cnt: "length (resultEntries ?os) + length (errorEntries videos ?os) = length files"
    using length_entries [of ?os videos] assms(2) len by simp
  have one: "length (resultEntries ?os) = length files - 1
          \<and> errorEntries videos ?os = [\<lparr>ee_originalName = vd_name (videos ! k), ee_error = err\<rparr>]"
    if "k < length files" and "?os ! k = Inl err"
      and "\<forall>j. j < length files \<and> j \<noteq> k \<longrightarrow> (\<exists>r. ?os ! j = Inr r)" for k err
    using entries_one_failure [of ?os videos k err] that assms(2) len by simp
  from len resp cnt one show ?thesis by blast
qed

text \<open>
  The specification's second scenario: of three uploads the second fails probing; the
  response counts two processed items of three and one error with the name \<^verbatim>\<open>b\<close>.
\<close>

theorem batch_isolates_item_failures_witness:
  "threeUploads \<noteq> [] \<and> length threeUploads \<le> length threeVideos
   \<and> itemOutcomes secondProbeFailsEnv threeUploads threeVideos threeUploadsServer ! 1
       = Inl ''Invalid data found''
   \<and> fst (processBatch secondProbeFailsEnv
            \<lparr>breq_files = threeUploads, breq_videosData = Some threeVideos\<rparr> threeUploadsServer)
       = BatchJson 2 3
           [\<lparr>re_originalName = ''a'', re_filename = ''processed-a-t0.mp4'',
             re_downloadUrl = ''/api/download/processed-a-t0.mp4'', re_success = True\<rparr>,
            \<lparr>re_originalName = ''c'', re_filename = ''processed-c-t2.mp4'',
             re_downloadUrl = ''/api/download/processed-c-t2.mp4'', re_success = True\<rparr>]
           [\<lparr>ee_originalName = ''b'', ee_error = ''Invalid data found''\<rparr>]"
proof -
  let ?os = "itemOutcomes secondProbeFailsEnv threeUploads threeVideos threeUploadsServer"
  have ne: "threeUploads \<noteq> []" by (simp add: threeUploads_def)
  have le: "length threeUploads \<le> length threeVideos"
    by (simp add: threeUploads_def threeVideos_def)
  have n: "length threeUploads = 3" by (simp add: threeUploads_def)
  have os: "?os =
     [Inr \<lparr>re_originalName = ''a'', re_filename = ''processed-a-t0.mp4'',
           re_downloadUrl = ''/api/download/processed-a-t0.mp4'', re_success = True\<rparr>,
      Inl ''Invalid data found'',
      Inr \<lparr>re_originalName = ''c'', re_filename = ''processed-c-t2.mp4'',
           re_downloadUrl = ''/api/download/processed-c-t2.mp4'', re_success = True\<rparr>]"
    by code_simp
  have others: "\<forall>j. j < length threeUploads \<and> j \<noteq> 1 \<longrightarrow> (\<exists>r. ?os ! j = Inr r)"
  proof (intro allI impI)
    fix j :: nat
    assume "j < length threeUploads \<and> j \<noteq> 1"
    then have "j = 0 \<or> j = 2" unfolding n by arith
    then show "\<exists>r. ?os ! j = Inr r" unfolding os by auto
  qed
  have hyp: "1 < length threeUploads \<and> ?os ! 1 = Inl ''Invalid data found''
      \<and> (\<forall>j. j < length threeUploads \<and> j \<noteq> 1 \<longrightarrow> (\<exists>r. ?os ! j = Inr r))"
    using others by (simp add: n os)
  note all = batch_isolates_item_failures [OF ne le, of secondProbeFailsEnv threeUploadsServer]
  note resp = all [THEN conjunct2, THEN conjunct1]
  note one = all [THEN conjunct2, THEN conjunct2, THEN conjunct2, rule_format, OF hyp]
  have name: "vd_name (threeVideos ! 1) = ''b''" by (simp add: threeVideos_def)
  have "fst (processBatch secondProbeFailsEnv
            \<lparr>breq_files = threeUploads, breq_videosData = Some threeVideos\<rparr> threeUploadsServer)
       = BatchJson 2 3 (resultEntries ?os) [\<lparr>ee_originalName = ''b'', ee_error = ''Invalid data found''\<rparr>]"
    unfolding resp using one name by (simp add: n)
  then show ?thesis
    using ne le by (simp add: os)
qed

text \<open>
  Claim C8.  The batch call is rejected as a whole exactly when the upload list is empty
  or the metadata list is shorter than the upload list; whether it is rejected does not
  depend on the probe, the encoder or the state of the server.
\<close>

theorem batch_rejected_only_for_malformed_input:
  "(rejected (fst (processBatch e req s))
      \<longleftrightarrow> breq_files req = []
          \<or> length (case breq_videosData req of None \<Rightarrow> [] | Some vs \<Rightarrow> vs) < length (breq_files req))
   \<and> rejected (fst (processBatch e req s)) = rejected (fst (processBatch e' req s'))"
proof -
  let ?videos = "case breq_videosData req of None \<Rightarrow> [] | Some vs \<Rightarrow> vs"
  have main: "rejected (fst (processBatch e req s))
      \<longleftrightarrow> breq_files req = [] \<or> length ?videos < length (breq_files req)" for e s
  proof (cases "breq_files req = []")
    case True
    then show ?thesis by (simp add: processBatch_def)
  next
    case False
    show ?thesis
    proof (cases "length (breq_files req) \<le> length ?videos")
      case True
      from batchLoop_outcomes [OF True, of e "[]" "[]" s] False True show ?thesis
        by (cases "batchLoop e (breq_files req) ?videos [] [] s")
           (simp add: processBatch_def)
    next
      case short: False
      then have "length ?videos < length (breq_files req)" by simp
      from batchLoop_short_metadata [OF this, of e "[]" "[]" s] False short show ?thesis
        by (cases "batchLoop e (breq_files req) ?videos [] [] s")
           (auto simp: processBatch_def)
    qed
  qed
  show ?thesis
    using main [of e s] main [of e' s'] by blast
qed

end
